theory Spec2Isabelle
  imports Main "HOL-Library.Word" "HOL-Library.Sublist"
begin

unbundle bit_operations_syntax

section \<open>logexec: data model\<close>

text \<open>
  \<^verbatim>\<open>logexec.go\<close> runs a child process, forwards its stdout and stderr line by line to
  syslog, relays signals and exits with the child's exit status.

  A Go \<^verbatim>\<open>error\<close> value is one of: \<^verbatim>\<open>nil\<close> (modelled by \<open>None\<close> of an option), the
  sentinel \<^verbatim>\<open>io.EOF\<close> (compared by identity in the source), an \<^verbatim>\<open>*exec.ExitError\<close>
  (with what its \<^verbatim>\<open>Sys()\<close> returns and its message text), or any other error, of which
  the program only uses the message (\<^verbatim>\<open>errors.New\<close>, I/O errors of reader and writer).
\<close>

type_synonym WaitStatus = "32 word"

datatype sys_value =
    Sys_WaitStatus WaitStatus   \<comment> \<open>\<^verbatim>\<open>Sys()\<close> holds a \<^verbatim>\<open>syscall.WaitStatus\<close>\<close>
  | Sys_other                   \<comment> \<open>\<^verbatim>\<open>Sys()\<close> holds a value of any other type (or nil)\<close>

datatype go_error =
    io_EOF
  | ExitError sys_value string
  | errorString string

fun Error :: "go_error \<Rightarrow> string" where
  "Error io_EOF = ''EOF''"
| "Error (ExitError sv msg) = msg"
| "Error (errorString msg) = msg"

subsection \<open>\<^verbatim>\<open>syscall.WaitStatus\<close> (the Go library on Linux)\<close>

text \<open>
  \<^verbatim>\<open>
  type WaitStatus uint32
  const ( mask = 0x7F; core = 0x80; exited = 0x00; stopped = 0x7F; shift = 8 )
  func (w WaitStatus) Exited() bool { return w&mask == exited }
  func (w WaitStatus) ExitStatus() int {
      if !w.Exited() { return -1 }
      return int(w>>shift) & 0xFF
  }
  \<close>
\<close>

definition Exited :: "WaitStatus \<Rightarrow> bool" where
  "Exited w = (w AND 0x7F = 0x00)"

definition ExitStatus :: "WaitStatus \<Rightarrow> int" where
  "ExitStatus w = (if \<not> Exited w then - 1 else uint (drop_bit 8 w AND 0xFF))"

section \<open>getExitStatus\<close>

text \<open>
  \<^verbatim>\<open>
  func getExitStatus(err error) int {
      if err == nil { return 0 }
      ose, ok := err.( *exec.ExitError )
      if !ok { return 1 }                      // Unknown error type, default to 1
      estatus, ok := ose.Sys().(syscall.WaitStatus)
      if !ok { }                               // Unknown sys type, default to 1
      return estatus.ExitStatus()
  }
  \<close>
  A failed type assertion in the two-value form leaves \<^verbatim>\<open>estatus\<close> at the zero value of
  its type, \<^verbatim>\<open>WaitStatus(0)\<close>; the body of the second \<^verbatim>\<open>if !ok\<close> is empty, so control
  reaches the final \<^verbatim>\<open>return\<close> with it.
\<close>

definition assert_WaitStatus :: "sys_value \<Rightarrow> WaitStatus \<times> bool" where
  "assert_WaitStatus sv = (case sv of Sys_WaitStatus w \<Rightarrow> (w, True) | Sys_other \<Rightarrow> (0, False))"

fun getExitStatus :: "go_error option \<Rightarrow> int" where
  "getExitStatus None = 0"
| "getExitStatus (Some (ExitError sv msg)) =
     (let (estatus, ok) = assert_WaitStatus sv in ExitStatus estatus)"
| "getExitStatus (Some _) = 1"

section \<open>logPipe: one stream forwarder\<close>

text \<open>
  \<^verbatim>\<open>strings.Contains\<close>: \<open>sub\<close> occurs in \<open>s\<close> as a contiguous run.
\<close>

fun Contains :: "string \<Rightarrow> string \<Rightarrow> bool" where
  "Contains [] sub = (sub = [])"
| "Contains (c # s) sub = (prefix sub (c # s) \<or> Contains s sub)"

text \<open>
  The slice expression \<^verbatim>\<open>l[:n]\<close> panics at run time unless \<open>0 \<le> n \<le> cap(l)\<close>.
  In \<^verbatim>\<open>logPipe\<close> it is only evaluated with \<open>n < len(l)\<close>, so the capacity beyond the
  length never decides; the model checks \<open>n\<close> against the length.
\<close>

datatype panic = SliceBoundsOutOfRange

definition slice_to :: "string \<Rightarrow> int \<Rightarrow> panic + string" where
  "slice_to l n =
     (if n < 0 \<or> int (length l) < n then Inl SliceBoundsOutOfRange else Inr (take (nat n) l))"

text \<open>
  Lines 106 to 110, the line that is handed to the writer:
  \<^verbatim>\<open>
  l := bytes.TrimSpace(line)
  if len(l) > *maxLogLine {
      l = l[:*maxLogLine-3]
      l = append(l, "..."...)
  }
  \<close>
  \<^verbatim>\<open>bytes.TrimSpace\<close> is the Go library's (it trims Unicode white space of a UTF-8
  byte slice); the model takes it as the parameter \<open>TrimSpace\<close>. \<open>maxLogLine\<close> is the
  value of the \<^verbatim>\<open>-maxline\<close> flag, a Go \<^verbatim>\<open>int\<close>; the subtraction leaves the range of
  \<^verbatim>\<open>int\<close> only for its three smallest values, where the wrapped bound is larger than any
  capacity and the slice expression panics as it does for the negative bound here.
  \<^verbatim>\<open>line\<close> is a slice of the reader's buffer and \<^verbatim>\<open>append\<close> writes the three dots
  into that buffer, at positions inside the line just read (the cut is below its
  length), which the reader has consumed: later reads do not see them.
\<close>

definition boundedLine :: "(string \<Rightarrow> string) \<Rightarrow> int \<Rightarrow> string \<Rightarrow> panic + string" where
  "boundedLine TrimSpace maxLogLine line =
     (let l = TrimSpace line in
      if int (length l) > maxLogLine then
        (case slice_to l (maxLogLine - 3) of
           Inl p \<Rightarrow> Inl p
         | Inr l' \<Rightarrow> Inr (l' @ ''...''))
      else Inr l)"

text \<open>
  \<^verbatim>\<open>bytes.TrimSpace\<close> on ASCII input, for evaluating the model on concrete lines: the
  ASCII white space of Go is tab, line feed, vertical tab, form feed, carriage return
  and space.
\<close>

definition asciiSpace :: "char \<Rightarrow> bool" where
  "asciiSpace c = (c \<in> set [CHR 0x09, CHR 0x0A, CHR 0x0B, CHR 0x0C, CHR 0x0D, CHR 0x20])"

definition TrimSpace_ascii :: "string \<Rightarrow> string" where
  "TrimSpace_ascii s = rev (dropWhile asciiSpace (rev (dropWhile asciiSpace s)))"

text \<open>
  The state of one \<^verbatim>\<open>logPipe\<close> goroutine: the flag \<^verbatim>\<open>lastWasPrefix\<close>, the state of the
  writer \<^verbatim>\<open>w\<close>, and (for the proofs) the lines passed to \<^verbatim>\<open>w.Write\<close> so far, in order.
  The writer is a function from its state and a line to the error \<^verbatim>\<open>Write\<close> returns and
  its next state. One call of \<^verbatim>\<open>s.ReadLine()\<close> returns \<^verbatim>\<open>(line, isPrefix, err)\<close>.
\<close>

record 'w forwarder =
  lastWasPrefix :: bool
  writer :: 'w
  written :: "string list"

type_synonym ReadLine_result = "string \<times> bool \<times> go_error option"

datatype pipe_end =
    Sent go_error       \<comment> \<open>\<^verbatim>\<open>logErr <- e; return\<close>\<close>
  | Panicked panic

datatype 'w iteration =
    Continue "'w forwarder"
  | Return "'w forwarder" pipe_end

definition errPrematureEOF :: go_error where
  "errPrematureEOF = errorString (''Error reading: got EOF. Exiting'' @ [CHR 0x0A])"

text \<open>Lines 106 to 116: bound the line, write it, stop on a write error.\<close>

definition emit ::
  "(string \<Rightarrow> string) \<Rightarrow> int \<Rightarrow> ('w \<Rightarrow> string \<Rightarrow> go_error option \<times> 'w) \<Rightarrow>
   'w forwarder \<Rightarrow> string \<Rightarrow> 'w iteration" where
  "emit TrimSpace maxLogLine Write st line =
     (case boundedLine TrimSpace maxLogLine line of
        Inl p \<Rightarrow> Return st (Panicked p)
      | Inr l \<Rightarrow>
          (let (werr, w') = Write (writer st) l;
               st' = st\<lparr>writer := w', written := written st @ [l]\<rparr>
           in case werr of
                Some e \<Rightarrow> Return st' (Sent e)
              | None \<Rightarrow> Continue st'))"

text \<open>
  One iteration of the \<^verbatim>\<open>for\<close> loop (lines 81 to 116). A Go \<^verbatim>\<open>switch\<close> does not fall
  through: the first case sets the flag and leaves the switch, the second and third
  \<^verbatim>\<open>continue\<close>, and when no case matches control also goes on after the switch.
\<close>

definition logPipe_iter ::
  "(string \<Rightarrow> string) \<Rightarrow> int \<Rightarrow> ('w \<Rightarrow> string \<Rightarrow> go_error option \<times> 'w) \<Rightarrow>
   'w forwarder \<Rightarrow> ReadLine_result \<Rightarrow> 'w iteration" where
  "logPipe_iter TrimSpace maxLogLine Write st r =
     (case r of (line, isPrefix, err) \<Rightarrow>
        if err = Some io_EOF then Return st (Sent errPrematureEOF)
        else (case err of
          Some e \<Rightarrow> Return st (Sent e)
        | None \<Rightarrow>
            if isPrefix \<and> \<not> lastWasPrefix st then
              emit TrimSpace maxLogLine Write (st\<lparr>lastWasPrefix := True\<rparr>) line
            else if isPrefix \<and> lastWasPrefix st then Continue st
            else if \<not> isPrefix \<and> lastWasPrefix st then Continue (st\<lparr>lastWasPrefix := False\<rparr>)
            else emit TrimSpace maxLogLine Write st line))"

text \<open>
  The loop over the results of the successive \<^verbatim>\<open>ReadLine\<close> calls. When the list is used
  up the goroutine is blocked in the next read.
\<close>

datatype 'w pipe_run =
    Blocked "'w forwarder"
  | Ended "'w forwarder" pipe_end

fun logPipe_loop ::
  "(string \<Rightarrow> string) \<Rightarrow> int \<Rightarrow> ('w \<Rightarrow> string \<Rightarrow> go_error option \<times> 'w) \<Rightarrow>
   'w forwarder \<Rightarrow> ReadLine_result list \<Rightarrow> 'w pipe_run" where
  "logPipe_loop TrimSpace maxLogLine Write st [] = Blocked st"
| "logPipe_loop TrimSpace maxLogLine Write st (r # rs) =
     (case logPipe_iter TrimSpace maxLogLine Write st r of
        Continue st' \<Rightarrow> logPipe_loop TrimSpace maxLogLine Write st' rs
      | Return st' e \<Rightarrow> Ended st' e)"

definition logPipe ::
  "(string \<Rightarrow> string) \<Rightarrow> int \<Rightarrow> ('w \<Rightarrow> string \<Rightarrow> go_error option \<times> 'w) \<Rightarrow>
   'w \<Rightarrow> ReadLine_result list \<Rightarrow> 'w pipe_run" where
  "logPipe TrimSpace maxLogLine Write w rs =
     logPipe_loop TrimSpace maxLogLine Write
       \<lparr>lastWasPrefix = False, writer = w, written = []\<rparr> rs"

text \<open>
  A writer that accepts every line, and the state of the goroutine at the end of a run
  and of one iteration.
\<close>

definition okWrite :: "unit \<Rightarrow> string \<Rightarrow> go_error option \<times> unit" where
  "okWrite w l = (None, ())"

fun final :: "'w pipe_run \<Rightarrow> 'w forwarder" where
  "final (Blocked st) = st"
| "final (Ended st e) = st"

fun after :: "'w iteration \<Rightarrow> 'w forwarder" where
  "after (Continue st) = st"
| "after (Return st e) = st"

text \<open>
  What \<^verbatim>\<open>ReadLine\<close> reports for one logical line that does not fit its buffer: one or
  more fragments with \<^verbatim>\<open>isPrefix\<close> set, then the last one without.
\<close>

definition longLine :: "string \<Rightarrow> string list \<Rightarrow> string \<Rightarrow> ReadLine_result list" where
  "longLine first middle lastf =
     (first, True, None) # map (\<lambda>f. (f, True, None)) middle @ [(lastf, False, None)]"

section \<open>main: the coordinator\<close>

text \<open>
  \<^verbatim>\<open>fmt\<close>'s \<^verbatim>\<open>%v\<close> of an \<^verbatim>\<open>int\<close>: its decimal digits, with a minus sign when negative.
\<close>

fun digits :: "nat \<Rightarrow> string" where
  "digits n = (if n < 10 then [''0123456789'' ! n] else digits (n div 10) @ [''0123456789'' ! (n mod 10)])"

definition Sprint :: "int \<Rightarrow> string" where
  "Sprint i = (if i < 0 then ''-'' @ digits (nat (- i)) else digits (nat i))"

text \<open>The signals of \<^verbatim>\<open>passSigs\<close> and their names (\<^verbatim>\<open>%v\<close> of an \<^verbatim>\<open>os.Signal\<close>).\<close>

datatype signal = SIGHUP | SIGINT | SIGQUIT | SIGTERM

fun signal_String :: "signal \<Rightarrow> string" where
  "signal_String SIGHUP = ''hangup''"
| "signal_String SIGINT = ''interrupt''"
| "signal_String SIGQUIT = ''quit''"
| "signal_String SIGTERM = ''terminated''"

text \<open>
  The \<^verbatim>\<open>select\<close> of the event loop receives one of four things: a signal, the closing
  of \<^verbatim>\<open>doneChan\<close> (both forwarders returned), the result of \<^verbatim>\<open>cmd.Wait()\<close> on \<^verbatim>\<open>cmdChan\<close>,
  or an error a forwarder sent on \<^verbatim>\<open>logErr\<close>.
\<close>

datatype event =
    Sig signal
  | Done
  | CmdWait "go_error option"
  | LogErr "go_error option"

text \<open>What the coordinator does to the outside, in order.\<close>

datatype effect =
    LogPrintf string        \<comment> \<open>\<^verbatim>\<open>log.Printf\<close>, and the message of \<^verbatim>\<open>log.Fatalf\<close>\<close>
  | ProcessSignal signal    \<comment> \<open>\<^verbatim>\<open>cmd.Process.Signal(sig)\<close>\<close>
  | ProcessKill             \<comment> \<open>\<^verbatim>\<open>cmd.Process.Kill()\<close>\<close>
  | StderrLogWrite string   \<comment> \<open>\<^verbatim>\<open>fmt.Fprintf(stderrLog, ...)\<close>\<close>

text \<open>
  The loop's state: whether \<^verbatim>\<open>cmdChan\<close> and \<^verbatim>\<open>doneChan\<close> are still non-nil, and the
  effects so far.
\<close>

record coord =
  cmdChan :: bool
  doneChan :: bool
  effects :: "effect list"

definition perform :: "effect \<Rightarrow> coord \<Rightarrow> coord" where
  "perform e s = s\<lparr>effects := effects s @ [e]\<rparr>"

datatype step =
    Next coord          \<comment> \<open>back to the loop condition\<close>
  | Exit int coord      \<comment> \<open>\<^verbatim>\<open>os.Exit(code)\<close>; \<^verbatim>\<open>log.Fatalf\<close> is a print and \<^verbatim>\<open>os.Exit(1)\<close>\<close>
  | NotReady            \<comment> \<open>a receive from a nil channel never proceeds\<close>

text \<open>
  The body of the \<^verbatim>\<open>select\<close> (lines 200 to 226), with \<^verbatim>\<open>ignoreSig\<close> the value of the
  \<^verbatim>\<open>-ignoresig\<close> flag.
\<close>

fun coordStep :: "bool \<Rightarrow> coord \<Rightarrow> event \<Rightarrow> step" where
  "coordStep ignoreSig s (Sig sig) =
     (if ignoreSig then
        Next (perform (LogPrintf (''logexec caught signal '' @ signal_String sig
                              @ '', not passing through'')) s)
      else
        Next (perform (ProcessSignal sig)
               (perform (LogPrintf (''logexec caught signal '' @ signal_String sig
                                @ '', passing through'')) s)))"
| "coordStep ignoreSig s Done =
     (if doneChan s then Next (s\<lparr>doneChan := False\<rparr>) else NotReady)"
| "coordStep ignoreSig s (CmdWait err) =
     (if cmdChan s then
        (let s' = s\<lparr>cmdChan := False\<rparr>; estatus = getExitStatus err in
         if estatus \<noteq> 0 then
           Exit estatus
             (perform (StderrLogWrite (''Command return non-zero exit status: '' @ Sprint estatus)) s')
         else Next s')
      else NotReady)"
| "coordStep ignoreSig s (LogErr err) =
     (case err of
        None \<Rightarrow> Next s
      | Some e \<Rightarrow>
          if e \<noteq> io_EOF \<and> \<not> Contains (Error e) ''bad file descriptor'' then
            (let s1 = perform ProcessKill s;
                 s2 = (if \<not> Contains (Error e) ''got EOF''
                       then perform (StderrLogWrite (''Error logging command output: '' @ Error e)) s1
                       else s1)
             in Exit 1 (perform (LogPrintf (''Error logging command output: '' @ Error e)) s2))
          else Next s)"

text \<open>
  The loop \<^verbatim>\<open>for !(cmdChan == nil && doneChan == nil) { select ... }\<close> over the events
  the \<^verbatim>\<open>select\<close> receives. When the condition fails \<^verbatim>\<open>main\<close> returns and the process
  exits with code 0; the events not received by then are returned with the state.
\<close>

datatype outcome =
    Returned coord "event list"   \<comment> \<open>the loop ended, \<^verbatim>\<open>main\<close> returned\<close>
  | OsExit int coord              \<comment> \<open>\<^verbatim>\<open>os.Exit\<close> inside the loop\<close>
  | Selecting coord               \<comment> \<open>blocked in \<^verbatim>\<open>select\<close>: no further event\<close>
  | Impossible                    \<comment> \<open>the next event is a receive from a nil channel\<close>

fun runLoop :: "bool \<Rightarrow> coord \<Rightarrow> event list \<Rightarrow> outcome" where
  "runLoop ignoreSig s [] =
     (if \<not> (\<not> cmdChan s \<and> \<not> doneChan s) then Selecting s else Returned s [])"
| "runLoop ignoreSig s (ev # evs) =
     (if \<not> (\<not> cmdChan s \<and> \<not> doneChan s) then
        (case coordStep ignoreSig s ev of
           Next s' \<Rightarrow> runLoop ignoreSig s' evs
         | Exit code s' \<Rightarrow> OsExit code s'
         | NotReady \<Rightarrow> Impossible)
      else Returned s (ev # evs))"

definition start :: coord where
  "start = \<lparr>cmdChan = True, doneChan = True, effects = []\<rparr>"

fun exitCode :: "outcome \<Rightarrow> int option" where
  "exitCode (Returned s evs) = Some 0"
| "exitCode (OsExit code s) = Some code"
| "exitCode (Selecting s) = None"
| "exitCode Impossible = None"

definition badFileDescriptor :: "go_error option \<Rightarrow> bool" where
  "badFileDescriptor err =
     (case err of None \<Rightarrow> False | Some e \<Rightarrow> Contains (Error e) ''bad file descriptor'')"

text \<open>
  The events of a clean shutdown: signals, the forwarders' completion, a \<^verbatim>\<open>Wait\<close> that
  returned nil, and forwarder errors whose message contains "bad file descriptor".
\<close>

fun cleanShutdown :: "event \<Rightarrow> bool" where
  "cleanShutdown (Sig sig) = True"
| "cleanShutdown Done = True"
| "cleanShutdown (CmdWait err) = (err = None)"
| "cleanShutdown (LogErr err) = badFileDescriptor err"

section \<open>The exit status\<close>

lemma ExitStatus_zero: "ExitStatus 0 = 0"
  by (simp add: ExitStatus_def Exited_def)

lemma getExitStatus_nil: "getExitStatus None = 0"
  by simp

lemma getExitStatus_not_ExitError:
  "getExitStatus (Some io_EOF) = 1" "getExitStatus (Some (errorString m)) = 1"
  by simp_all

lemma getExitStatus_WaitStatus:
  "getExitStatus (Some (ExitError (Sys_WaitStatus w) m)) = ExitStatus w"
  by (simp add: assert_WaitStatus_def)




section \<open>The emitted line\<close>

lemma boundedLine_cases:
  assumes "boundedLine T m line = Inr out"
  shows "(int (length (T line)) \<le> m \<longrightarrow> out = T line)
       \<and> (m < int (length (T line)) \<longrightarrow>
            int (length out) = m \<and> drop (nat (m - 3)) out = ''...''
            \<and> take (nat (m - 3)) out = take (nat (m - 3)) (T line))
       \<and> int (length out) \<le> m"
  using assms
  by (auto simp: boundedLine_def slice_to_def Let_def split: if_splits)

lemma emit_written:
  "written (after (emit T m W st line)) =
     (case boundedLine T m line of Inl p \<Rightarrow> written st | Inr l \<Rightarrow> written st @ [l])"
  by (auto simp: emit_def Let_def split: sum.splits prod.splits option.splits)

lemma emit_lastWasPrefix:
  "lastWasPrefix (after (emit T m W st line)) = lastWasPrefix st"
  by (auto simp: emit_def Let_def split: sum.splits prod.splits option.splits)

lemma emit_Continue:
  "boundedLine T m line = Inr l \<Longrightarrow> W (writer st) l = (None, w') \<Longrightarrow>
   emit T m W st line = Continue (st\<lparr>writer := w', written := written st @ [l]\<rparr>)"
  by (simp add: emit_def)

lemma TrimSpace_ascii_length: "length (TrimSpace_ascii s) \<le> length s"
proof -
  have "length (dropWhile asciiSpace (rev (dropWhile asciiSpace s)))
          \<le> length (rev (dropWhile asciiSpace s))"
    by (rule length_dropWhile_le)
  also have "\<dots> \<le> length s"
    by (simp add: length_dropWhile_le)
  finally show ?thesis by (simp add: TrimSpace_ascii_def)
qed

text \<open>
  C2. When \<^verbatim>\<open>logPipe\<close>, in the non-partial state, reads a complete line and hands a line
  \<open>out\<close> to the writer, then \<open>out\<close> is the trimmed line itself if that has at most
  \<open>maxLogLine\<close> bytes; otherwise \<open>out\<close> has exactly \<open>maxLogLine\<close> bytes, ends in
  \<^verbatim>\<open>...\<close> and starts with the first \<open>maxLogLine - 3\<close> bytes of the trimmed line. In
  both cases \<open>out\<close> has at most \<open>maxLogLine\<close> bytes. In particular, as trimming
  never makes a line longer, a line shorter than \<open>maxLogLine\<close> comes out as its
  trimmed form.
\<close>

theorem logPipe_emitted_line:
  assumes "\<not> lastWasPrefix st"
      and "written (after (logPipe_iter T m W st (line, False, None))) = written st @ [out]"
  shows "(int (length (T line)) \<le> m \<longrightarrow> out = T line)
       \<and> (m < int (length (T line)) \<longrightarrow>
            int (length out) = m \<and> drop (nat (m - 3)) out = ''...''
            \<and> take (nat (m - 3)) out = take (nat (m - 3)) (T line))
       \<and> int (length out) \<le> m
       \<and> (length (T line) \<le> length line \<and> int (length line) < m \<longrightarrow> out = T line)"
proof -
  from assms have "written (after (emit T m W st line)) = written st @ [out]"
    by (simp add: logPipe_iter_def)
  then have "boundedLine T m line = Inr out"
    by (cases "boundedLine T m line") (simp_all add: emit_written)
  from boundedLine_cases [OF this] show ?thesis by auto
qed

theorem logPipe_emitted_line_witness:
  "written (after (logPipe_iter TrimSpace_ascii 10 okWrite
       \<lparr>lastWasPrefix = False, writer = (), written = []\<rparr>
       (''  0123456789ABCDEF '', False, None))) = [''0123456...'']
   \<and> int (length ''0123456...'') = 10
   \<and> drop (nat (10 - 3)) ''0123456...'' = ''...''
   \<and> written (after (logPipe_iter TrimSpace_ascii 8192 okWrite
       \<lparr>lastWasPrefix = False, writer = (), written = []\<rparr>
       (''hello world'', False, None))) = [TrimSpace_ascii ''hello world'']"
proof -
  have f: "\<not> lastWasPrefix \<lparr>lastWasPrefix = False, writer = (), written = []\<rparr>"
    by simp
  have h: "written (after (logPipe_iter TrimSpace_ascii 10 okWrite
       \<lparr>lastWasPrefix = False, writer = (), written = []\<rparr>
       (''  0123456789ABCDEF '', False, None)))
     = written \<lparr>lastWasPrefix = False, writer = (), written = []\<rparr> @ [''0123456...'']"
    by (simp add: logPipe_iter_def emit_def boundedLine_def slice_to_def TrimSpace_ascii_def
        asciiSpace_def okWrite_def)
  have k: "written (after (logPipe_iter TrimSpace_ascii 8192 okWrite
       \<lparr>lastWasPrefix = False, writer = (), written = []\<rparr>
       (''hello world'', False, None)))
     = written \<lparr>lastWasPrefix = False, writer = (), written = []\<rparr> @ [''hello world'']"
    by (simp add: logPipe_iter_def emit_def boundedLine_def slice_to_def TrimSpace_ascii_def
        asciiSpace_def okWrite_def)
  have t: "int (length (TrimSpace_ascii ''hello world'')) \<le> 8192"
    using TrimSpace_ascii_length [of "''hello world''"] by simp
  from logPipe_emitted_line [OF f h] logPipe_emitted_line [OF f k] h k t
  show ?thesis by simp
qed

text \<open>Every line a run of \<^verbatim>\<open>logPipe\<close> hands to the writer has at most \<open>maxLogLine\<close> bytes.\<close>

lemma emit_bounded:
  assumes "\<forall>l \<in> set (written st). int (length l) \<le> m"
  shows "\<forall>l \<in> set (written (after (emit T m W st line))). int (length l) \<le> m"
proof (cases "boundedLine T m line")
  case (Inl p)
  with assms show ?thesis by (simp add: emit_written)
next
  case (Inr out)
  with assms boundedLine_cases [OF Inr] show ?thesis by (simp add: emit_written)
qed

lemma logPipe_iter_bounded:
  assumes "\<forall>l \<in> set (written st). int (length l) \<le> m"
  shows "\<forall>l \<in> set (written (after (logPipe_iter T m W st r))). int (length l) \<le> m"
proof -
  obtain line isPrefix err where r: "r = (line, isPrefix, err)" by (cases r)
  have 1: "\<forall>l \<in> set (written (after (emit T m W st line))). int (length l) \<le> m"
    using assms by (rule emit_bounded)
  have 2: "\<forall>l \<in> set (written (after (emit T m W (st\<lparr>lastWasPrefix := True\<rparr>) line))).
             int (length l) \<le> m"
    using assms by (intro emit_bounded) simp
  show ?thesis
    using assms 1 2 by (simp add: r logPipe_iter_def split: option.splits)
qed

lemma logPipe_loop_bounded:
  "\<forall>l \<in> set (written st). int (length l) \<le> m \<Longrightarrow>
   \<forall>l \<in> set (written (final (logPipe_loop T m W st rs))). int (length l) \<le> m"
proof (induction rs arbitrary: st)
  case Nil
  then show ?case by simp
next
  case (Cons r rs)
  from logPipe_iter_bounded [OF Cons.prems, of T W r] Cons.IH show ?case
    by (cases "logPipe_iter T m W st r") simp_all
qed

section \<open>Fragments of a long line\<close>

text \<open>
  C3 (as stated, refuted). A fragment with \<^verbatim>\<open>isPrefix\<close> set that arrives in the
  non-partial state is not skipped: here, with \<open>maxLogLine = 8\<close> and a 16-byte
  fragment (a full read buffer), the iteration sets the flag and writes the line
  \<^verbatim>\<open>01234...\<close> to the sink.
\<close>

theorem first_fragment_is_emitted:
  "logPipe_iter TrimSpace_ascii 8 okWrite
     \<lparr>lastWasPrefix = False, writer = (), written = []\<rparr> (''0123456789abcdef'', True, None)
   = Continue \<lparr>lastWasPrefix = True, writer = (), written = [''01234...'']\<rparr>"
  by (simp add: logPipe_iter_def emit_def boundedLine_def slice_to_def TrimSpace_ascii_def
      asciiSpace_def okWrite_def)

text \<open>
  C3 (amended). Whenever the reader returns a fragment with \<^verbatim>\<open>isPrefix\<close> set while the
  flag \<^verbatim>\<open>lastWasPrefix\<close> is clear, the iteration sets the flag and hands the bounded
  line of that fragment (trimmed, and cut to \<open>maxLogLine\<close> bytes ending in \<^verbatim>\<open>...\<close>
  when longer) to the writer; when the write succeeds the loop continues with the flag
  set.
\<close>

theorem first_fragment_sets_flag_and_emits:
  assumes "\<not> lastWasPrefix st"
  shows "lastWasPrefix (after (logPipe_iter T m W st (frag, True, None)))
       \<and> (\<forall>l. boundedLine T m frag = Inr l \<longrightarrow>
             written (after (logPipe_iter T m W st (frag, True, None))) = written st @ [l])
       \<and> (\<forall>l w'. boundedLine T m frag = Inr l \<longrightarrow> W (writer st) l = (None, w') \<longrightarrow>
             logPipe_iter T m W st (frag, True, None)
               = Continue (st\<lparr>lastWasPrefix := True, writer := w', written := written st @ [l]\<rparr>))"
proof -
  have it: "logPipe_iter T m W st (frag, True, None) = emit T m W (st\<lparr>lastWasPrefix := True\<rparr>) frag"
    using assms by (simp add: logPipe_iter_def)
  show ?thesis
    by (simp add: it emit_written emit_lastWasPrefix emit_Continue)
qed

theorem first_fragment_sets_flag_and_emits_witness:
  "lastWasPrefix (after (logPipe_iter TrimSpace_ascii 8 okWrite
      \<lparr>lastWasPrefix = False, writer = (), written = []\<rparr> (''0123456789abcdef'', True, None)))
   \<and> written (after (logPipe_iter TrimSpace_ascii 8 okWrite
      \<lparr>lastWasPrefix = False, writer = (), written = []\<rparr> (''0123456789abcdef'', True, None)))
     = [''01234...'']"
proof -
  have b: "boundedLine TrimSpace_ascii 8 ''0123456789abcdef'' = Inr ''01234...''"
    by (simp add: boundedLine_def slice_to_def TrimSpace_ascii_def asciiSpace_def)
  have f: "\<not> lastWasPrefix \<lparr>lastWasPrefix = False, writer = (), written = []\<rparr>"
    by simp
  from first_fragment_sets_flag_and_emits [OF f, of TrimSpace_ascii 8 okWrite "''0123456789abcdef''"] b
  show ?thesis by simp
qed

lemma middle_fragments_dropped:
  "lastWasPrefix st \<Longrightarrow>
   logPipe_loop T m W st (map (\<lambda>f. (f, True, None)) middle @ rs) = logPipe_loop T m W st rs"
  by (induction middle) (simp_all add: logPipe_iter_def)

lemma last_fragment_dropped:
  "lastWasPrefix st \<Longrightarrow>
   logPipe_loop T m W st ((lastf, False, None) # rs)
     = logPipe_loop T m W (st\<lparr>lastWasPrefix := False\<rparr>) rs"
  by (simp add: logPipe_iter_def)

lemma longLine_after_first:
  assumes "\<not> lastWasPrefix st"
  shows "logPipe_loop T m W st (longLine first middle lastf @ rest) =
     (case emit T m W (st\<lparr>lastWasPrefix := True\<rparr>) first of
        Continue st' \<Rightarrow> logPipe_loop T m W (st'\<lparr>lastWasPrefix := False\<rparr>) rest
      | Return st' e \<Rightarrow> Ended st' e)"
proof (cases "emit T m W (st\<lparr>lastWasPrefix := True\<rparr>) first")
  case (Continue st')
  then have "lastWasPrefix st'"
    using emit_lastWasPrefix [of T m W "st\<lparr>lastWasPrefix := True\<rparr>" first] by simp
  then show ?thesis
    using assms Continue
    by (simp add: longLine_def logPipe_iter_def middle_fragments_dropped last_fragment_dropped)
next
  case (Return st' e)
  then show ?thesis using assms by (simp add: longLine_def logPipe_iter_def)
qed

text \<open>
  C4. Let a logical line be reported as one or more fragments with \<^verbatim>\<open>isPrefix\<close> set
  followed by a last fragment without, starting in the non-partial state, and let \<open>l\<close>
  be the bounded line of the first fragment (it exists whenever \<open>maxLogLine \<ge> 3\<close>).
  Then over the whole logical line exactly one line is handed to the writer, and it is
  \<open>l\<close>: no later fragment has any part in it. When that write succeeds, the loop goes
  on with the reads after the logical line in the non-partial state, the writer having
  seen nothing of the middle and last fragments.
\<close>

theorem long_line_emitted_once:
  assumes "\<not> lastWasPrefix st" and "boundedLine T m first = Inr l"
  shows "written (final (logPipe_loop T m W st (longLine first middle lastf))) = written st @ [l]
       \<and> (\<forall>w'. W (writer st) l = (None, w') \<longrightarrow>
            logPipe_loop T m W st (longLine first middle lastf @ rest)
              = logPipe_loop T m W (st\<lparr>writer := w', written := written st @ [l]\<rparr>) rest)"
proof -
  have w: "written (after (emit T m W (st\<lparr>lastWasPrefix := True\<rparr>) first)) = written st @ [l]"
    using assms(2) by (simp add: emit_written)
  have 1: "written (final (logPipe_loop T m W st (longLine first middle lastf))) = written st @ [l]"
    using longLine_after_first [OF assms(1), of T m W first middle lastf "[]"] w
    by (cases "emit T m W (st\<lparr>lastWasPrefix := True\<rparr>) first") simp_all
  have 2: "logPipe_loop T m W st (longLine first middle lastf @ rest)
              = logPipe_loop T m W (st\<lparr>writer := w', written := written st @ [l]\<rparr>) rest"
    if "W (writer st) l = (None, w')" for w'
  proof -
    have "emit T m W (st\<lparr>lastWasPrefix := True\<rparr>) first
            = Continue (st\<lparr>lastWasPrefix := True, writer := w', written := written st @ [l]\<rparr>)"
      using emit_Continue [of T m first l W "st\<lparr>lastWasPrefix := True\<rparr>" w'] assms(2) that
      by simp
    moreover have "st\<lparr>lastWasPrefix := True, writer := w', written := written st @ [l],
                     lastWasPrefix := False\<rparr> = st\<lparr>writer := w', written := written st @ [l]\<rparr>"
      using assms(1) by (cases st) simp
    ultimately show ?thesis
      using longLine_after_first [OF assms(1), of T m W first middle lastf rest] by simp
  qed
  from 1 2 show ?thesis by blast
qed

theorem long_line_emitted_once_witness:
  "written (final (logPipe_loop TrimSpace_ascii 8 okWrite
       \<lparr>lastWasPrefix = False, writer = (), written = []\<rparr>
       (longLine ''0123456789abcdef'' [''ghijklmnopqrstuv''] ''wxyz''))) = [''01234...'']
   \<and> logPipe_loop TrimSpace_ascii 8 okWrite
       \<lparr>lastWasPrefix = False, writer = (), written = []\<rparr>
       (longLine ''0123456789abcdef'' [''ghijklmnopqrstuv''] ''wxyz'' @ [('' hi '', False, None)])
     = Blocked \<lparr>lastWasPrefix = False, writer = (), written = [''01234...'', ''hi'']\<rparr>"
proof -
  have b: "boundedLine TrimSpace_ascii 8 ''0123456789abcdef'' = Inr ''01234...''"
    by (simp add: boundedLine_def slice_to_def TrimSpace_ascii_def asciiSpace_def)
  have f: "\<not> lastWasPrefix \<lparr>lastWasPrefix = False, writer = (), written = []\<rparr>"
    by simp
  have w: "okWrite (writer \<lparr>lastWasPrefix = False, writer = (), written = []\<rparr>) ''01234...''
             = (None, ())"
    by (simp add: okWrite_def)
  from long_line_emitted_once [OF f b, of okWrite "[''ghijklmnopqrstuv'']" "''wxyz''"
      "[('' hi '', False, None)]"] w
  show ?thesis
    by (simp add: logPipe_iter_def emit_def boundedLine_def slice_to_def TrimSpace_ascii_def
        asciiSpace_def okWrite_def)
qed

section \<open>End of stream\<close>

text \<open>
  C8. In every state of the loop, a \<^verbatim>\<open>ReadLine\<close> that returns \<^verbatim>\<open>io.EOF\<close> makes the
  forwarder send the error "Error reading: got EOF. Exiting" on \<^verbatim>\<open>logErr\<close> and return,
  whatever reads would follow, with nothing written for that read. The error sent is not
  \<^verbatim>\<open>io.EOF\<close> itself, and the coordinator recognises it by the words "got EOF".
\<close>

theorem eof_is_premature:
  "logPipe_iter T m W st (line, isPrefix, Some io_EOF) = Return st (Sent errPrematureEOF)
   \<and> logPipe_loop T m W st ((line, isPrefix, Some io_EOF) # rs) = Ended st (Sent errPrematureEOF)
   \<and> errPrematureEOF \<noteq> io_EOF
   \<and> Contains (Error errPrematureEOF) ''got EOF''"
  by (simp add: logPipe_iter_def errPrematureEOF_def)

theorem eof_is_premature_witness:
  "logPipe TrimSpace_ascii 8 okWrite () [(''ab'', False, None), ([], False, Some io_EOF)]
     = Ended \<lparr>lastWasPrefix = False, writer = (), written = [''ab'']\<rparr> (Sent errPrematureEOF)"
  using eof_is_premature [of TrimSpace_ascii 8 okWrite
      "\<lparr>lastWasPrefix = False, writer = (), written = [''ab'']\<rparr>" "[]" False "[]"]
  by (simp add: logPipe_def logPipe_iter_def emit_def boundedLine_def slice_to_def
      TrimSpace_ascii_def asciiSpace_def okWrite_def)

text \<open>
  The forwarder passes a \<^verbatim>\<open>Write\<close> error on as it is, so it sends \<^verbatim>\<open>io.EOF\<close> itself only
  if the writer returns it.
\<close>

lemma emit_Sent:
  "emit T m W st line = Return st' (Sent e) \<Longrightarrow> \<exists>w l. fst (W w l) = Some e"
  by (auto simp: emit_def Let_def split: sum.splits prod.splits option.splits) (metis fst_conv)

lemma iter_never_sends_io_EOF:
  assumes "\<forall>w l. fst (W w l) \<noteq> Some io_EOF"
  shows "logPipe_iter T m W st r \<noteq> Return st' (Sent io_EOF)"
proof
  assume a: "logPipe_iter T m W st r = Return st' (Sent io_EOF)"
  obtain line isPrefix err where r: "r = (line, isPrefix, err)" by (cases r)
  from a r have "\<exists>st0 l. emit T m W st0 l = Return st' (Sent io_EOF)"
    by (auto simp: logPipe_iter_def errPrematureEOF_def split: if_splits option.splits)
  then show False using emit_Sent assms by blast
qed

lemma loop_never_sends_io_EOF:
  assumes "\<forall>w l. fst (W w l) \<noteq> Some io_EOF"
  shows "logPipe_loop T m W st rs \<noteq> Ended st' (Sent io_EOF)"
proof (induction rs arbitrary: st)
  case Nil
  show ?case by simp
next
  case (Cons r rs)
  then show ?case
    using iter_never_sends_io_EOF [OF assms, of T m st r]
    by (cases "logPipe_iter T m W st r") auto
qed

section \<open>The slice bound\<close>

lemma boundedLine_no_panic: "3 \<le> m \<Longrightarrow> \<exists>out. boundedLine T m line = Inr out"
  by (simp add: boundedLine_def slice_to_def Let_def)

lemma emit_no_panic: "3 \<le> m \<Longrightarrow> emit T m W st line \<noteq> Return st' (Panicked p)"
  using boundedLine_no_panic [of m T line]
  by (auto simp: emit_def Let_def split: prod.splits option.splits)

lemma iter_no_panic: "3 \<le> m \<Longrightarrow> logPipe_iter T m W st r \<noteq> Return st' (Panicked p)"
  by (cases r) (auto simp: logPipe_iter_def emit_no_panic split: option.splits)

lemma loop_no_panic: "3 \<le> m \<Longrightarrow> logPipe_loop T m W st rs \<noteq> Ended st' (Panicked p)"
proof (induction rs arbitrary: st)
  case Nil
  then show ?case by simp
next
  case (Cons r rs)
  then show ?case
    using iter_no_panic [of m T W st r]
    by (cases "logPipe_iter T m W st r") auto
qed

text \<open>
  C10. If \<open>maxLogLine \<ge> 3\<close>, then for a trimmed line longer than \<open>maxLogLine\<close> the cut
  index \<open>maxLogLine - 3\<close> lies between 0 and the length of the trimmed line, the bounded
  line exists for every input, and no run of \<^verbatim>\<open>logPipe\<close> ends in a panic. The model, as
  the program, accepts any \<open>maxLogLine\<close>: if \<open>maxLogLine < 3\<close> and the trimmed line is
  longer than \<open>maxLogLine\<close>, the slice bound is negative and \<^verbatim>\<open>logPipe\<close> panics on that
  line.
\<close>

theorem truncation_in_bounds:
  "(3 \<le> m \<longrightarrow>
      (m < int (length (T line)) \<longrightarrow> 0 \<le> m - 3 \<and> m - 3 \<le> int (length (T line)))
      \<and> (\<exists>out. boundedLine T m line = Inr out)
      \<and> (\<forall>st rs st' p. logPipe_loop T m W st rs \<noteq> Ended st' (Panicked p)))
   \<and> (m < 3 \<and> m < int (length (T line)) \<longrightarrow>
      m - 3 < 0
      \<and> boundedLine T m line = Inl SliceBoundsOutOfRange
      \<and> logPipe T m W w [(line, False, None)]
          = Ended \<lparr>lastWasPrefix = False, writer = w, written = []\<rparr> (Panicked SliceBoundsOutOfRange))"
proof -
  have "boundedLine T m line = Inl SliceBoundsOutOfRange" if "m < 3" "m < int (length (T line))"
    using that by (simp add: boundedLine_def slice_to_def)
  then show ?thesis
    by (auto simp: boundedLine_no_panic loop_no_panic logPipe_def logPipe_iter_def emit_def)
qed

theorem truncation_in_bounds_witness:
  "(3::int) \<le> 10 \<and> boundedLine TrimSpace_ascii 10 ''0123456789ABCDEF'' = Inr ''0123456...''
   \<and> (2::int) < 3 \<and> 2 < int (length (TrimSpace_ascii ''abc''))
   \<and> logPipe TrimSpace_ascii 2 okWrite () [(''abc'', False, None)]
       = Ended \<lparr>lastWasPrefix = False, writer = (), written = []\<rparr> (Panicked SliceBoundsOutOfRange)"
proof -
  have a: "boundedLine TrimSpace_ascii 10 ''0123456789ABCDEF'' = Inr ''0123456...''"
    by (simp add: boundedLine_def slice_to_def TrimSpace_ascii_def asciiSpace_def)
  have l: "(2::int) < 3 \<and> 2 < int (length (TrimSpace_ascii ''abc''))"
    by (simp add: TrimSpace_ascii_def asciiSpace_def)
  from truncation_in_bounds [of 2 TrimSpace_ascii "''abc''" okWrite "()"] l
    truncation_in_bounds [of 10 TrimSpace_ascii "''0123456789ABCDEF''" okWrite "()"] a
  show ?thesis by simp
qed

section \<open>The coordinator\<close>



lemma coordStep_clean:
  "cleanShutdown ev \<Longrightarrow> coordStep ig s ev \<noteq> NotReady \<Longrightarrow>
   \<exists>s'. coordStep ig s ev = Next s'
        \<and> cmdChan s' = (cmdChan s \<and> ev \<noteq> CmdWait None)
        \<and> doneChan s' = (doneChan s \<and> ev \<noteq> Done)"
  by (cases ev) (auto simp: perform_def badFileDescriptor_def Let_def split: option.splits if_splits)

lemma runLoop_clean:
  assumes "\<forall>ev \<in> set evs. cleanShutdown ev"
      and "cmdChan s \<longrightarrow> CmdWait None \<in> set evs"
      and "doneChan s \<longrightarrow> Done \<in> set evs"
      and "runLoop ig s evs \<noteq> Impossible"
  shows "\<exists>s' rest. runLoop ig s evs = Returned s' rest"
  using assms
proof (induction evs arbitrary: s)
  case Nil
  then show ?case by simp
next
  case (Cons ev evs)
  show ?case
  proof (cases "\<not> cmdChan s \<and> \<not> doneChan s")
    case True
    then show ?thesis by simp
  next
    case False
    with Cons.prems(4) have nr: "coordStep ig s ev \<noteq> NotReady"
      by (auto split: step.splits)
    from Cons.prems(1) have "cleanShutdown ev" by simp
    from coordStep_clean [OF this nr] obtain s' where
      s': "coordStep ig s ev = Next s'"
      "cmdChan s' = (cmdChan s \<and> ev \<noteq> CmdWait None)"
      "doneChan s' = (doneChan s \<and> ev \<noteq> Done)" by blast
    have run: "runLoop ig s (ev # evs) = runLoop ig s' evs"
      using False s'(1) by simp
    have "\<exists>s'' rest. runLoop ig s' evs = Returned s'' rest"
    proof (rule Cons.IH)
      show "\<forall>ev\<in>set evs. cleanShutdown ev" using Cons.prems(1) by simp
      show "cmdChan s' \<longrightarrow> CmdWait None \<in> set evs" using Cons.prems(2) s'(2) by auto
      show "doneChan s' \<longrightarrow> Done \<in> set evs" using Cons.prems(3) s'(3) by auto
      show "runLoop ig s' evs \<noteq> Impossible" using Cons.prems(4) run by simp
    qed
    with run show ?thesis by simp
  qed
qed

text \<open>
  C5. Take any sequence of events the loop can follow, made only of signals, the
  forwarders' completion, a \<^verbatim>\<open>Wait\<close> that returned nil (the child exited with code 0)
  and forwarder errors with "bad file descriptor" in their message, in which the
  \<^verbatim>\<open>Wait\<close> result and the forwarders' completion both occur. Then the loop ends
  normally, \<^verbatim>\<open>main\<close> returns and the exit code of the program is 0.
\<close>

theorem clean_shutdown_exits_zero:
  assumes "\<forall>ev \<in> set evs. cleanShutdown ev"
      and "CmdWait None \<in> set evs"
      and "Done \<in> set evs"
      and "runLoop ig start evs \<noteq> Impossible"
  shows "(\<exists>s rest. runLoop ig start evs = Returned s rest)
       \<and> exitCode (runLoop ig start evs) = Some 0"
proof -
  from runLoop_clean [of evs start ig] assms
  obtain s rest where "runLoop ig start evs = Returned s rest" by auto
  then show ?thesis by simp
qed

theorem clean_shutdown_exits_zero_witness:
  "exitCode (runLoop False start
     [LogErr (Some (errorString ''read |0: bad file descriptor'')), CmdWait None, Sig SIGTERM,
      LogErr (Some (errorString ''read |0: bad file descriptor'')), Done]) = Some 0"
proof -
  let ?evs = "[LogErr (Some (errorString ''read |0: bad file descriptor'')), CmdWait None,
      Sig SIGTERM, LogErr (Some (errorString ''read |0: bad file descriptor'')), Done]"
  have 1: "\<forall>ev \<in> set ?evs. cleanShutdown ev" by (simp add: badFileDescriptor_def)
  have 2: "CmdWait None \<in> set ?evs" by simp
  have 3: "Done \<in> set ?evs" by simp
  have 4: "runLoop False start ?evs \<noteq> Impossible"
    by (simp add: start_def perform_def)
  from clean_shutdown_exits_zero [OF 1 2 3 4] show ?thesis by blast
qed





text \<open>
  C7. When a forwarder reports a stream error (an error other than the end-of-stream
  marker \<^verbatim>\<open>io.EOF\<close>, which the forwarder never passes on from a read) whose message
  contains neither "bad file descriptor" nor "got EOF", the coordinator kills the child,
  writes "Error logging command output: ..." to the stderr sink and exits with code 1.
  An error with "bad file descriptor" in its message changes nothing and the loop
  continues.
\<close>

theorem stream_error_handling:
  "(e \<noteq> io_EOF \<and> \<not> Contains (Error e) ''bad file descriptor'' \<and> \<not> Contains (Error e) ''got EOF''
      \<longrightarrow> coordStep ig s (LogErr (Some e))
            = Exit 1 (s\<lparr>effects := effects s @
                 [ProcessKill,
                  StderrLogWrite (''Error logging command output: '' @ Error e),
                  LogPrintf (''Error logging command output: '' @ Error e)]\<rparr>))
   \<and> (Contains (Error e) ''bad file descriptor'' \<longrightarrow> coordStep ig s (LogErr (Some e)) = Next s)"
  by (simp add: perform_def)

theorem stream_error_handling_witness:
  "coordStep False start (LogErr (Some (errorString ''write unix: broken pipe'')))
     = Exit 1 \<lparr>cmdChan = True, doneChan = True, effects =
         [ProcessKill,
          StderrLogWrite ''Error logging command output: write unix: broken pipe'',
          LogPrintf ''Error logging command output: write unix: broken pipe'']\<rparr>
   \<and> coordStep False start (LogErr (Some (errorString ''read |0: bad file descriptor''))) = Next start"
proof -
  have 1: "errorString ''write unix: broken pipe'' \<noteq> io_EOF
     \<and> \<not> Contains (Error (errorString ''write unix: broken pipe'')) ''bad file descriptor''
     \<and> \<not> Contains (Error (errorString ''write unix: broken pipe'')) ''got EOF''"
    by simp
  have 2: "Contains (Error (errorString ''read |0: bad file descriptor'')) ''bad file descriptor''"
    by simp
  from stream_error_handling [of "errorString ''write unix: broken pipe''" False start] 1
    stream_error_handling [of "errorString ''read |0: bad file descriptor''" False start] 2
  show ?thesis by (simp add: start_def)
qed

lemma coordStep_Next_flags:
  assumes "coordStep ig s ev = Next s'"
  shows "(cmdChan s \<and> \<not> cmdChan s' \<longrightarrow> (\<exists>err. ev = CmdWait err \<and> getExitStatus err = 0))
       \<and> (doneChan s \<and> \<not> doneChan s' \<longrightarrow> ev = Done)"
  using assms
  by (cases ev) (auto simp: perform_def Let_def split: if_splits option.splits)

lemma coordStep_Exit_code:
  assumes "coordStep ig s ev = Exit code s'"
  shows "code \<noteq> 0
       \<and> ((\<exists>err. ev = CmdWait err \<and> getExitStatus err = code)
          \<or> (\<exists>e. ev = LogErr (Some e) \<and> code = 1 \<and> e \<noteq> io_EOF
                 \<and> \<not> Contains (Error e) ''bad file descriptor''))"
  using assms
  by (cases ev) (auto simp: perform_def Let_def split: if_splits option.splits)

lemma runLoop_Returned:
  assumes "runLoop ig s0 evs = Returned s rest"
  shows "\<exists>pre. evs = pre @ rest
           \<and> (doneChan s0 \<longrightarrow> Done \<in> set pre)
           \<and> (cmdChan s0 \<longrightarrow> (\<exists>err. CmdWait err \<in> set pre \<and> getExitStatus err = 0))
           \<and> \<not> cmdChan s \<and> \<not> doneChan s"
  using assms
proof (induction evs arbitrary: s0)
  case Nil
  then show ?case by (simp split: if_splits)
next
  case (Cons ev evs)
  show ?case
  proof (cases "\<not> cmdChan s0 \<and> \<not> doneChan s0")
    case True
    with Cons.prems show ?thesis by auto
  next
    case False
    with Cons.prems obtain s1 where
      st: "coordStep ig s0 ev = Next s1" and run: "runLoop ig s1 evs = Returned s rest"
      by (auto split: step.splits)
    from Cons.IH [OF run] obtain pre where pre:
      "evs = pre @ rest"
      "doneChan s1 \<longrightarrow> Done \<in> set pre"
      "cmdChan s1 \<longrightarrow> (\<exists>err. CmdWait err \<in> set pre \<and> getExitStatus err = 0)"
      "\<not> cmdChan s" "\<not> doneChan s"
      by blast
    from coordStep_Next_flags [OF st] have fl:
      "cmdChan s0 \<and> \<not> cmdChan s1 \<longrightarrow> (\<exists>err. ev = CmdWait err \<and> getExitStatus err = 0)"
      "doneChan s0 \<and> \<not> doneChan s1 \<longrightarrow> ev = Done"
      by blast+
    have "ev # evs = (ev # pre) @ rest" using pre(1) by simp
    moreover have "doneChan s0 \<longrightarrow> Done \<in> set (ev # pre)"
      using pre(2) fl(2) by auto
    moreover have "cmdChan s0 \<longrightarrow> (\<exists>err. CmdWait err \<in> set (ev # pre) \<and> getExitStatus err = 0)"
      using pre(3) fl(1) by (cases "cmdChan s1") auto
    ultimately show ?thesis using pre(4,5) by blast
  qed
qed

lemma runLoop_OsExit:
  assumes "runLoop ig s0 evs = OsExit code s"
  shows "code \<noteq> 0"
  using assms
proof (induction evs arbitrary: s0)
  case Nil
  then show ?case by (simp split: if_splits)
next
  case (Cons ev evs)
  then show ?case
    using coordStep_Exit_code [of ig s0 ev]
    by (auto split: if_splits step.splits)
qed

text \<open>
  C9. If the loop, run from the start on any sequence of events, ends normally with the
  events \<open>rest\<close> left unreceived, then the events it did receive contain both the
  forwarders' completion and a \<^verbatim>\<open>Wait\<close> result with exit status 0, and both channels
  are nil at the end. Every \<^verbatim>\<open>os.Exit\<close> inside the loop has a nonzero code, so exit code
  0 is reached only after both events.
\<close>

theorem loop_returns_only_after_both:
  "(runLoop ig start evs = Returned s rest \<longrightarrow>
      (\<exists>pre. evs = pre @ rest \<and> Done \<in> set pre
            \<and> (\<exists>err. CmdWait err \<in> set pre \<and> getExitStatus err = 0))
      \<and> \<not> cmdChan s \<and> \<not> doneChan s)
   \<and> (runLoop ig start evs = OsExit code s \<longrightarrow> code \<noteq> 0)
   \<and> (exitCode (runLoop ig start evs) = Some 0 \<longrightarrow>
        Done \<in> set evs \<and> (\<exists>err. CmdWait err \<in> set evs \<and> getExitStatus err = 0))"
proof -
  have 1: "(\<exists>pre. evs = pre @ rest \<and> Done \<in> set pre
            \<and> (\<exists>err. CmdWait err \<in> set pre \<and> getExitStatus err = 0))
      \<and> \<not> cmdChan s \<and> \<not> doneChan s" if "runLoop ig start evs = Returned s rest"
    using runLoop_Returned [OF that] by (auto simp: start_def)
  have 2: "code \<noteq> 0" if "runLoop ig start evs = OsExit code s"
    using runLoop_OsExit [OF that] .
  have 3: "Done \<in> set evs \<and> (\<exists>err. CmdWait err \<in> set evs \<and> getExitStatus err = 0)"
    if "exitCode (runLoop ig start evs) = Some 0"
  proof (cases "runLoop ig start evs")
    case (Returned s' rest')
    from runLoop_Returned [OF this] show ?thesis by (auto simp: start_def)
  next
    case (OsExit c s')
    with that runLoop_OsExit [OF OsExit] show ?thesis by simp
  qed (use that in simp_all)
  from 1 2 3 show ?thesis by blast
qed

theorem loop_returns_only_after_both_witness:
  "runLoop False start [Done, Sig SIGINT, CmdWait None, Sig SIGHUP]
     = Returned \<lparr>cmdChan = False, doneChan = False,
         effects = [LogPrintf ''logexec caught signal interrupt, passing through'',
                    ProcessSignal SIGINT]\<rparr> [Sig SIGHUP]
   \<and> (\<exists>pre. [Done, Sig SIGINT, CmdWait None, Sig SIGHUP] = pre @ [Sig SIGHUP] \<and> Done \<in> set pre
            \<and> (\<exists>err. CmdWait err \<in> set pre \<and> getExitStatus err = 0))"
proof -
  have r: "runLoop False start [Done, Sig SIGINT, CmdWait None, Sig SIGHUP]
     = Returned \<lparr>cmdChan = False, doneChan = False,
         effects = [LogPrintf ''logexec caught signal interrupt, passing through'',
                    ProcessSignal SIGINT]\<rparr> [Sig SIGHUP]"
    by (simp add: start_def perform_def)
  from loop_returns_only_after_both [of False "[Done, Sig SIGINT, CmdWait None, Sig SIGHUP]"
      "\<lparr>cmdChan = False, doneChan = False,
         effects = [LogPrintf ''logexec caught signal interrupt, passing through'',
                    ProcessSignal SIGINT]\<rparr>" "[Sig SIGHUP]"] r
  show ?thesis by blast
qed

end
